theory Spec2Isabelle
  imports
    Complex_Main
    "HOL-Library.Multiset"
    "HOL-Library.List_Lexorder"
begin

section \<open>The ship dashboard: list screen and detail screen\<close>

text \<open>
  The development embeds the logic of the two React components of the dashboard,
  \<^verbatim>\<open>ShipTable\<close> (Table.tsx) and \<^verbatim>\<open>ShipDetails\<close> (detailPage.tsx). Component state
  held in \<^verbatim>\<open>useState\<close> cells is a record; an event handler is a function from the record
  to the updated record; values computed during a render (\<^verbatim>\<open>filteredData\<close>,
  \<^verbatim>\<open>totalPages\<close>, \<^verbatim>\<open>paginatedData\<close>) are functions of the state they read.
\<close>

subsection \<open>Strings\<close>

text \<open>
  A JavaScript string is a sequence of 16-bit code units; a code unit is a number here
  (nothing below depends on the bound), and \<open>js\<close> writes an ASCII literal as such a
  sequence. Strings are compared code unit by code unit, as \<^verbatim>\<open><\<close> and \<^verbatim>\<open>>\<close> do.
\<close>

type_synonym jsstring = "nat list"

definition js :: "string \<Rightarrow> jsstring" where
  "js s = map of_char s"

text \<open>
  The built-in \<^verbatim>\<open>toLowerCase\<close> follows the Unicode case mapping. The part of it written
  out here: the capital letters of Basic Latin (A to Z), of Latin-1 (U+00C0 to U+00DE
  without the multiplication sign) and of Greek (U+0391 to U+03A9) go to the small letter
  32 code units higher; the capital I with dot above (U+0130) goes to two code units;
  and the capital sigma (U+03A3) goes to the final small sigma (U+03C2) when a cased
  letter stands before it and none after it, case-ignorable characters skipped on both
  sides, and to the small sigma (U+03C3) otherwise. A code unit outside these blocks is
  left as it is, which is the built-in's result for the characters without case only; the
  statements below that depend on the mapping are about strings of Basic Latin and
  Latin-1 characters, and about the two Greek strings of the counterexample.
\<close>

definition isCapital :: "nat \<Rightarrow> bool" where
  "isCapital u =
     ((0x41 \<le> u \<and> u \<le> 0x5A) \<or> (0xC0 \<le> u \<and> u \<le> 0xDE \<and> u \<noteq> 0xD7)
      \<or> (0x391 \<le> u \<and> u \<le> 0x3A9 \<and> u \<noteq> 0x3A2))"

definition isSmall :: "nat \<Rightarrow> bool" where
  "isSmall u =
     ((0x61 \<le> u \<and> u \<le> 0x7A) \<or> u = 0xAA \<or> u = 0xB5 \<or> u = 0xBA
      \<or> (0xDF \<le> u \<and> u \<le> 0xFF \<and> u \<noteq> 0xF7) \<or> (0x3B1 \<le> u \<and> u \<le> 0x3C9))"

definition isCased :: "nat \<Rightarrow> bool" where
  "isCased u = (isCapital u \<or> isSmall u \<or> u = 0x130)"

definition isCaseIgnorable :: "nat \<Rightarrow> bool" where
  "isCaseIgnorable u =
     (u \<in> {0x27, 0x2E, 0x3A, 0x5E, 0x60, 0xA8, 0xAD, 0xAF, 0xB4, 0xB7, 0xB8}
      \<or> (0x300 \<le> u \<and> u \<le> 0x36F))"

fun casedNext :: "nat list \<Rightarrow> bool" where
  "casedNext [] = False"
| "casedNext (u # us) = (if isCaseIgnorable u then casedNext us else isCased u)"

text \<open>
  The condition on a capital sigma; \<open>preceding\<close> is what stands before it, nearest first,
  and \<open>following\<close> what stands after it.
\<close>

definition finalSigma :: "nat list \<Rightarrow> nat list \<Rightarrow> bool" where
  "finalSigma preceding following = (casedNext preceding \<and> \<not> casedNext following)"

fun lowerFrom :: "nat list \<Rightarrow> jsstring \<Rightarrow> jsstring" where
  "lowerFrom preceding [] = []"
| "lowerFrom preceding (u # us) =
     (if u = 0x3A3 then (if finalSigma preceding us then [0x3C2] else [0x3C3])
      else if u = 0x130 then [0x69, 0x307]
      else if isCapital u then [u + 32]
      else [u]) @ lowerFrom (u # preceding) us"

definition toLowerCase :: "jsstring \<Rightarrow> jsstring" where
  "toLowerCase s = lowerFrom [] s"

text \<open>
  The built-in \<^verbatim>\<open>includes\<close> searches for a contiguous occurrence of its argument, trying
  every start position from the left.
\<close>

fun startsWith :: "'a list \<Rightarrow> 'a list \<Rightarrow> bool" where
  "startsWith hay [] = True"
| "startsWith [] (c # cs) = False"
| "startsWith (h # hs) (c # cs) = (h = c \<and> startsWith hs cs)"

fun str_includes :: "'a list \<Rightarrow> 'a list \<Rightarrow> bool" where
  "str_includes [] needle = (needle = [])"
| "str_includes (h # hs) needle = (startsWith (h # hs) needle \<or> str_includes hs needle)"

subsection \<open>Records of Table.tsx\<close>

record Mission =
  mission_name :: jsstring

text \<open>
  The type \<^verbatim>\<open>Ship\<close> of Table.tsx. Numbers are integers here (identifiers, years); a field
  of type \<^verbatim>\<open>T | null\<close> is an option.
\<close>

record Ship =
  ship_id :: int
  ship_name :: jsstring
  ship_type :: jsstring
  roles :: "jsstring list"
  home_port :: jsstring
  year_built :: "int option"
  active :: bool
  ship_image :: "jsstring option"
  missions :: "Mission list"

datatype SortableField = Ship_name | Ship_type | Year_built | Missions

subsection \<open>Filtering\<close>

text \<open>
  \<^verbatim>\<open>ships.filter((ship) => ship.ship_name.toLowerCase().includes(search.toLowerCase()))\<close>
\<close>

definition matchesSearch :: "jsstring \<Rightarrow> Ship \<Rightarrow> bool" where
  "matchesSearch search ship =
     str_includes (toLowerCase (ship_name ship)) (toLowerCase search)"

definition filterShips :: "jsstring \<Rightarrow> Ship list \<Rightarrow> Ship list" where
  "filterShips search ships = filter (matchesSearch search) ships"

text \<open>
  The specification's wording, for comparison, written without the lower-casing function.
  A capital letter of Basic Latin or Latin-1 and its small letter form a case pair; two
  code units are the same letter when they are equal or form a case pair; two strings are
  equal up to case when they have the same length and the same letters; and \<open>s\<close> is a
  case-insensitive substring of \<open>n\<close> when some contiguous segment of \<open>n\<close> equals \<open>s\<close> up to
  case.
\<close>

definition casePair :: "nat \<Rightarrow> nat \<Rightarrow> bool" where
  "casePair capital small =
     (small = capital + 32
      \<and> ((0x41 \<le> capital \<and> capital \<le> 0x5A)
         \<or> (0xC0 \<le> capital \<and> capital \<le> 0xDE \<and> capital \<noteq> 0xD7)))"

definition sameLetter :: "nat \<Rightarrow> nat \<Rightarrow> bool" where
  "sameLetter a b = (a = b \<or> casePair a b \<or> casePair b a)"

definition equalIgnoringCase :: "jsstring \<Rightarrow> jsstring \<Rightarrow> bool" where
  "equalIgnoringCase a b = list_all2 sameLetter a b"

definition caseInsensitiveSubstring :: "jsstring \<Rightarrow> jsstring \<Rightarrow> bool" where
  "caseInsensitiveSubstring s n =
     (\<exists>before seg after. n = before @ seg @ after \<and> equalIgnoringCase seg s)"


subsection \<open>Sorting\<close>

text \<open>
  The value a record is sorted by:
  \<^verbatim>\<open>sortBy === "missions" ? a.missions.length : a[sortBy] ?? ""\<close>.
  It is a number for the mission count and for a year that is present, and a string for
  the name, the type, and for an absent year (\<^verbatim>\<open>null ?? ""\<close> is the empty string).
\<close>

datatype jsval = Num int | Str jsstring

fun sortValue :: "SortableField \<Rightarrow> Ship \<Rightarrow> jsval" where
  "sortValue Missions a = Num (int (length (missions a)))"
| "sortValue Ship_name a = Str (ship_name a)"
| "sortValue Ship_type a = Str (ship_type a)"
| "sortValue Year_built a = (case year_built a of Some y \<Rightarrow> Num y | None \<Rightarrow> Str [])"

text \<open>
  \<^verbatim>\<open>===\<close> never converts: a number and a string are different. \<^verbatim>\<open>>\<close> compares two
  numbers numerically and two strings code unit by code unit; when a number meets a
  string the string is converted to a number first. The only string that can meet a number
  here is the empty default, which converts to 0; any other string on that path is
  taken as not a number, for which every comparison is false.
\<close>

fun strict_eq :: "jsval \<Rightarrow> jsval \<Rightarrow> bool" where
  "strict_eq (Num a) (Num b) = (a = b)"
| "strict_eq (Str a) (Str b) = (a = b)"
| "strict_eq (Num a) (Str b) = False"
| "strict_eq (Str a) (Num b) = False"

fun js_gt :: "jsval \<Rightarrow> jsval \<Rightarrow> bool" where
  "js_gt (Num a) (Num b) = (b < a)"
| "js_gt (Str a) (Str b) = (b < a)"
| "js_gt (Num a) (Str s) = (s = [] \<and> 0 < a)"
| "js_gt (Str s) (Num b) = (s = [] \<and> b < 0)"

text \<open>The comparator handed to \<^verbatim>\<open>data.sort\<close>.\<close>

definition compareFn :: "SortableField \<Rightarrow> bool \<Rightarrow> Ship \<Rightarrow> Ship \<Rightarrow> int" where
  "compareFn sortBy reverseSort a b =
     (let valA = sortValue sortBy a; valB = sortValue sortBy b in
      if strict_eq valA valB then 0
      else if reverseSort then (if js_gt valA valB then - 1 else 1)
      else (if js_gt valA valB then 1 else - 1))"

text \<open>
  \<^verbatim>\<open>Array.prototype.sort\<close> is the engine's. ECMAScript fixes its result only when the
  comparator is consistent on the elements (then it is the sorted list with ties in their
  old order) and leaves the order to the engine otherwise, and this comparator is not
  consistent on every input. So the engine's algorithm is written out: the sort of V8
  (Chrome, Node), a TimSort. It finds the run at the start of the array, the longest
  stretch in which no element compares below its predecessor, or else in which every
  element compares below its predecessor; a run of the second kind is reversed. Each later
  element is then put into the sorted front by binary search. This is the whole algorithm
  for an array of fewer than 64 elements. A longer array is cut into such pieces which are
  merged; with a comparator that is consistent on the elements the result is the same
  list, the sorted one with ties in their old order.
\<close>

fun runTail :: "('a \<Rightarrow> 'a \<Rightarrow> int) \<Rightarrow> bool \<Rightarrow> 'a \<Rightarrow> 'a list \<Rightarrow> nat" where
  "runTail cmp descending previous [] = 0"
| "runTail cmp descending previous (current # rest) =
     (let order = cmp current previous in
      if (if descending then 0 \<le> order else order < 0) then 0
      else Suc (runTail cmp descending current rest))"

definition countAndMakeRun :: "('a \<Rightarrow> 'a \<Rightarrow> int) \<Rightarrow> 'a list \<Rightarrow> 'a list \<times> 'a list" where
  "countAndMakeRun cmp xs =
     (case xs of
        a # b # rest \<Rightarrow>
          (let descending = (cmp b a < 0);
               n = 2 + runTail cmp descending b rest
           in (if descending then rev (take n xs) else take n xs, drop n xs))
      | _ \<Rightarrow> (xs, []))"

function binarySearch :: "('a \<Rightarrow> 'a \<Rightarrow> int) \<Rightarrow> 'a \<Rightarrow> 'a list \<Rightarrow> nat \<Rightarrow> nat \<Rightarrow> nat" where
  "binarySearch cmp pivot work left right =
     (if left < right then
        (let mid = left + (right - left) div 2 in
         if cmp pivot (work ! mid) < 0 then binarySearch cmp pivot work left mid
         else binarySearch cmp pivot work (mid + 1) right)
      else left)"
  by pat_completeness auto
termination
  by (relation "measure (\<lambda>(cmp, pivot, work, left, right). right - left)") auto

declare binarySearch.simps [simp del]

definition insertPivot :: "('a \<Rightarrow> 'a \<Rightarrow> int) \<Rightarrow> 'a \<Rightarrow> 'a list \<Rightarrow> 'a list" where
  "insertPivot cmp pivot work =
     (let k = binarySearch cmp pivot work 0 (length work) in take k work @ pivot # drop k work)"

fun binaryInsertionSort :: "('a \<Rightarrow> 'a \<Rightarrow> int) \<Rightarrow> 'a list \<Rightarrow> 'a list \<Rightarrow> 'a list" where
  "binaryInsertionSort cmp work [] = work"
| "binaryInsertionSort cmp work (pivot # rest) =
     binaryInsertionSort cmp (insertPivot cmp pivot work) rest"

definition array_sort :: "('a \<Rightarrow> 'a \<Rightarrow> int) \<Rightarrow> 'a list \<Rightarrow> 'a list" where
  "array_sort cmp xs =
     (if length xs < 2 then xs
      else (let (run, rest) = countAndMakeRun cmp xs in binaryInsertionSort cmp run rest))"

text \<open>The memoised value \<^verbatim>\<open>filteredData\<close>: the filter, then the sort when a key is selected.\<close>

definition filteredData ::
  "Ship list \<Rightarrow> jsstring \<Rightarrow> SortableField option \<Rightarrow> bool \<Rightarrow> Ship list" where
  "filteredData ships search sortBy reverseSort =
     (let data = filterShips search ships in
      case sortBy of
        Some field \<Rightarrow> array_sort (compareFn field reverseSort) data
      | None \<Rightarrow> data)"

subsection \<open>Pagination\<close>

text \<open>
  \<^verbatim>\<open>Array.prototype.slice(start, end)\<close>: a negative index counts from the end, both
  indices are clamped to the array, and the result is empty when the end is not after the
  start.
\<close>

definition slice :: "'a list \<Rightarrow> int \<Rightarrow> int \<Rightarrow> 'a list" where
  "slice xs start end' =
     (let len = int (length xs);
          k = (if start < 0 then max (len + start) 0 else min start len);
          final = (if end' < 0 then max (len + end') 0 else min end' len)
      in take (nat (final - k)) (drop (nat k) xs))"

definition pageSize :: nat where
  "pageSize = 10"

text \<open>\<^verbatim>\<open>Math.ceil(filteredData.length / pageSize)\<close>\<close>

definition totalPages :: "'a list \<Rightarrow> int" where
  "totalPages rows = \<lceil>real (length rows) / real pageSize\<rceil>"

text \<open>\<^verbatim>\<open>filteredData.slice((currentPage - 1) * pageSize, currentPage * pageSize)\<close>\<close>

definition paginatedData :: "'a list \<Rightarrow> int \<Rightarrow> 'a list" where
  "paginatedData rows currentPage =
     slice rows ((currentPage - 1) * int pageSize) (currentPage * int pageSize)"



text \<open>For the ordering of absent years: a year that is present and positive.\<close>

definition yearPositive :: "Ship \<Rightarrow> bool" where
  "yearPositive r = (case year_built r of Some y \<Rightarrow> 0 < y | None \<Rightarrow> False)"

text \<open>The number an absent year is compared as: \<^verbatim>\<open>""\<close> converts to 0.\<close>

definition yearOrZero :: "Ship \<Rightarrow> int" where
  "yearOrZero r = (case year_built r of Some y \<Rightarrow> y | None \<Rightarrow> 0)"

subsection \<open>State of the list screen\<close>

record ListState =
  ships :: "Ship list"
  loading :: bool
  search :: jsstring
  sortBy :: "SortableField option"
  reverseSort :: bool
  selectedShip :: "Ship option"
  drawerOpened :: bool
  currentPage :: int
  console :: "string list"

text \<open>
  The initial values of the \<^verbatim>\<open>useState\<close> cells. The field \<open>console\<close> is not a cell of
  the component: it collects the messages passed to \<^verbatim>\<open>console.error\<close>.
\<close>

definition initialList :: ListState where
  "initialList = \<lparr>ships = [], loading = True, search = [], sortBy = None,
     reverseSort = False, selectedShip = None, drawerOpened = False, currentPage = 1,
     console = []\<rparr>"

text \<open>
  \<^verbatim>\<open>const reversed = field === sortBy ? !reverseSort : false;
  setReverseSort(reversed); setSortBy(field);\<close>
\<close>

definition setSorting :: "SortableField \<Rightarrow> ListState \<Rightarrow> ListState" where
  "setSorting field st =
     (let reversed = (if Some field = sortBy st then \<not> reverseSort st else False)
      in st\<lparr>reverseSort := reversed, sortBy := Some field\<rparr>)"

text \<open>The search box: \<^verbatim>\<open>setSearch(e.currentTarget.value); setCurrentPage(1);\<close>\<close>

definition onSearchChange :: "jsstring \<Rightarrow> ListState \<Rightarrow> ListState" where
  "onSearchChange v st = st\<lparr>search := v, currentPage := 1\<rparr>"

text \<open>The pagination control: \<^verbatim>\<open>onChange={setCurrentPage}\<close>.\<close>

definition setCurrentPage :: "int \<Rightarrow> ListState \<Rightarrow> ListState" where
  "setCurrentPage p st = st\<lparr>currentPage := p\<rparr>"

text \<open>What a render of the list screen derives from its state.\<close>

definition displayed :: "ListState \<Rightarrow> Ship list" where
  "displayed st = filteredData (ships st) (search st) (sortBy st) (reverseSort st)"

definition visibleRows :: "ListState \<Rightarrow> Ship list" where
  "visibleRows st = paginatedData (displayed st) (currentPage st)"

text \<open>The table body: the loader while loading, else the rows of the page, else a notice.\<close>

datatype list_view = ListLoader | Rows "Ship list" | NoShipsFound

definition ShipTable :: "ListState \<Rightarrow> list_view" where
  "ShipTable st =
     (if loading st then ListLoader
      else if length (visibleRows st) \<noteq> 0 then Rows (visibleRows st)
      else NoShipsFound)"

subsection \<open>Fetching\<close>

text \<open>
  A fetch either fails in \<^verbatim>\<open>fetch\<close> (the promise rejects), or fails in \<^verbatim>\<open>res.json()\<close>
  (the body is not JSON), or yields the parsed body. \<^verbatim>\<open>fetch\<close> does not reject on an HTTP
  error status, so the body of an error response is parsed like any other.
  The code after the \<^verbatim>\<open>await\<close>s is a sequence of calls of state setters and of
  \<^verbatim>\<open>console.error\<close>; the \<^verbatim>\<open>finally\<close> block runs on every path.
\<close>

datatype 'd fetched = NetworkError | ParseError | Parsed 'd

datatype 'd call = SetData 'd | SetLoading bool | ConsoleError string

text \<open>
  \<^verbatim>\<open>fetchShips\<close> of Table.tsx: before the first \<^verbatim>\<open>await\<close>, and after the fetch has
  settled. The parsed body is taken to be an array of records, as the type of the state
  cell \<^verbatim>\<open>ships\<close> says.
\<close>

definition fetchShips_start :: "Ship list call list" where
  "fetchShips_start = [SetLoading True]"

fun fetchShips_settled :: "Ship list fetched \<Rightarrow> Ship list call list" where
  "fetchShips_settled (Parsed data) = [SetData data, SetLoading False]"
| "fetchShips_settled NetworkError = [ConsoleError ''Failed to fetch ships'', SetLoading False]"
| "fetchShips_settled ParseError = [ConsoleError ''Failed to fetch ships'', SetLoading False]"

fun applyListCall :: "ListState \<Rightarrow> Ship list call \<Rightarrow> ListState" where
  "applyListCall st (SetData data) = st\<lparr>ships := data\<rparr>"
| "applyListCall st (SetLoading b) = st\<lparr>loading := b\<rparr>"
| "applyListCall st (ConsoleError m) = st\<lparr>console := console st @ [m]\<rparr>"

definition fetchShips :: "Ship list fetched \<Rightarrow> ListState \<Rightarrow> ListState" where
  "fetchShips r st = foldl applyListCall st (fetchShips_start @ fetchShips_settled r)"

subsection \<open>The detail screen\<close>

text \<open>
  The body parsed by \<^verbatim>\<open>res.json()\<close> is any JSON value; \<^verbatim>\<open>setShip(data)\<close> stores it
  unchecked. Only integer numbers are needed here.
\<close>

datatype json =
  JNull | JBool bool | JNum int | JStr string | JArr "json list" | JObj "(string \<times> json) list"

record DetailState =
  ship :: json
  shipLoading :: bool
  shipConsole :: "string list"

definition initialDetail :: DetailState where
  "initialDetail = \<lparr>ship = JNull, shipLoading = True, shipConsole = []\<rparr>"

text \<open>\<^verbatim>\<open>fetchShip\<close> of detailPage.tsx, after the fetch has settled; it has no call before.\<close>

fun fetchShip_settled :: "json fetched \<Rightarrow> json call list" where
  "fetchShip_settled (Parsed data) = [SetData data, SetLoading False]"
| "fetchShip_settled NetworkError = [ConsoleError ''Error fetching ship:'', SetLoading False]"
| "fetchShip_settled ParseError = [ConsoleError ''Error fetching ship:'', SetLoading False]"

fun applyDetailCall :: "DetailState \<Rightarrow> json call \<Rightarrow> DetailState" where
  "applyDetailCall st (SetData data) = st\<lparr>ship := data\<rparr>"
| "applyDetailCall st (SetLoading b) = st\<lparr>shipLoading := b\<rparr>"
| "applyDetailCall st (ConsoleError m) = st\<lparr>shipConsole := shipConsole st @ [m]\<rparr>"

definition fetchShip :: "json fetched \<Rightarrow> DetailState \<Rightarrow> DetailState" where
  "fetchShip r st = foldl applyDetailCall st (fetchShip_settled r)"

text \<open>
  \<^verbatim>\<open>!ship\<close> holds for the falsy values: \<^verbatim>\<open>null\<close>, \<^verbatim>\<open>false\<close>, \<^verbatim>\<open>0\<close> and the empty
  string. Reading a property of any other value does not throw; it yields
  \<^verbatim>\<open>undefined\<close> (here \<open>None\<close>) unless the value is an object with that member (the last
  one, when the JSON text repeats a name). This covers the two properties read below,
  \<^verbatim>\<open>roles\<close> and \<^verbatim>\<open>missions\<close>, which no string, number, boolean or array has.
\<close>

fun truthy :: "json \<Rightarrow> bool" where
  "truthy JNull = False"
| "truthy (JBool b) = b"
| "truthy (JNum n) = (n \<noteq> 0)"
| "truthy (JStr s) = (s \<noteq> [])"
| "truthy (JArr xs) = True"
| "truthy (JObj ms) = True"

fun getProp :: "json \<Rightarrow> string \<Rightarrow> json option" where
  "getProp (JObj ms) k = map_of (rev ms) k"
| "getProp v k = None"

text \<open>
  Calling \<^verbatim>\<open>.map\<close> on the value of a property succeeds on an array; on
  \<^verbatim>\<open>undefined\<close> or \<^verbatim>\<open>null\<close>, and on any other JSON value (which has no callable
  \<^verbatim>\<open>map\<close>), it throws a TypeError.
\<close>

fun isArray :: "json option \<Rightarrow> bool" where
  "isArray (Some (JArr xs)) = True"
| "isArray v = False"

text \<open>
  The function mapped over the roles only passes each role on. The function mapped over
  the missions reads \<^verbatim>\<open>m.flight\<close> and \<^verbatim>\<open>m.name\<close>, which throws a TypeError when the
  element \<^verbatim>\<open>m\<close> is \<^verbatim>\<open>null\<close> and yields a value on every other JSON value.
\<close>

fun hasNullElement :: "json option \<Rightarrow> bool" where
  "hasNullElement (Some (JArr xs)) = (JNull \<in> set xs)"
| "hasNullElement v = False"

text \<open>
  What a call of \<^verbatim>\<open>ShipDetails\<close> produces: the loader, the notice
  \<^verbatim>\<open>Ship not found\<close>, the detail markup, or a TypeError thrown while the markup is
  built (in \<^verbatim>\<open>ship.roles.map\<close>, then in \<^verbatim>\<open>ship.missions.map\<close>); nothing in the
  component catches it. The fields read before the roles cannot throw: the property of
  a truthy value is read, and \<^verbatim>\<open>ship.position?.latitude\<close> guards itself. What the UI
  library does with the returned markup is not part of the function.
\<close>

datatype detail_view = DetailLoader | ShipNotFound | Details json | RenderTypeError

definition ShipDetails :: "DetailState \<Rightarrow> detail_view" where
  "ShipDetails st =
     (if shipLoading st then DetailLoader
      else if \<not> truthy (ship st) then ShipNotFound
      else if \<not> isArray (getProp (ship st) ''roles'') then RenderTypeError
      else if \<not> isArray (getProp (ship st) ''missions'') then RenderTypeError
      else if hasNullElement (getProp (ship st) ''missions'') then RenderTypeError
      else Details (ship st))"

subsection \<open>Activation and deactivation of a screen\<close>

text \<open>
  One activation of a screen: whether the component is still mounted, whether its fetch
  is outstanding, and the calls its code has made so far. Both effects return no cleanup
  function, so deactivation runs no code of the screen and leaves the fetch outstanding;
  when the fetch settles the rest of the \<^verbatim>\<open>async\<close> function runs.
\<close>

record 'd Activation =
  mounted :: bool
  outstanding :: bool
  calls :: "'d call list"

datatype 'd event = Deactivate | Settle "'d fetched"

definition activate :: "'d call list \<Rightarrow> 'd Activation" where
  "activate start = \<lparr>mounted = True, outstanding = True, calls = start\<rparr>"

fun step :: "('d fetched \<Rightarrow> 'd call list) \<Rightarrow> 'd Activation \<Rightarrow> 'd event \<Rightarrow> 'd Activation" where
  "step settled a Deactivate = a\<lparr>mounted := False\<rparr>"
| "step settled a (Settle r) =
     (if outstanding a then a\<lparr>outstanding := False, calls := calls a @ settled r\<rparr> else a)"

subsection \<open>The derivation with arrays in a store\<close>

text \<open>
  To see which array \<^verbatim>\<open>data.sort\<close> overwrites, arrays live in a store and are named by
  their index in it. \<^verbatim>\<open>filter\<close> and \<^verbatim>\<open>slice\<close> allocate a new array and return its
  reference; \<^verbatim>\<open>sort\<close> overwrites the array it is called on and returns the same
  reference.
\<close>

type_synonym 'a store = "'a list list"

definition array_filter :: "('a \<Rightarrow> bool) \<Rightarrow> nat \<Rightarrow> 'a store \<Rightarrow> nat \<times> 'a store" where
  "array_filter p r h = (length h, h @ [filter p (h ! r)])"

definition array_sort_in_place ::
  "('a \<Rightarrow> 'a \<Rightarrow> int) \<Rightarrow> nat \<Rightarrow> 'a store \<Rightarrow> nat \<times> 'a store" where
  "array_sort_in_place cmp r h = (r, h[r := array_sort cmp (h ! r)])"

definition array_slice :: "nat \<Rightarrow> int \<Rightarrow> int \<Rightarrow> 'a store \<Rightarrow> nat \<times> 'a store" where
  "array_slice r start end' h = (length h, h @ [slice (h ! r) start end'])"

definition filteredData_store ::
  "nat \<Rightarrow> jsstring \<Rightarrow> SortableField option \<Rightarrow> bool \<Rightarrow> Ship store \<Rightarrow> nat \<times> Ship store" where
  "filteredData_store shipsRef q key dir h =
     (let (data, h1) = array_filter (matchesSearch q) shipsRef h in
      case key of
        Some field \<Rightarrow> (data, snd (array_sort_in_place (compareFn field dir) data h1))
      | None \<Rightarrow> (data, h1))"

text \<open>The whole derivation of a render: the reference of the page's rows and the page count.\<close>

definition derivedView ::
  "nat \<Rightarrow> jsstring \<Rightarrow> SortableField option \<Rightarrow> bool \<Rightarrow> int \<Rightarrow> Ship store
     \<Rightarrow> (nat \<times> int) \<times> Ship store" where
  "derivedView shipsRef q key dir page h =
     (let (fd, h1) = filteredData_store shipsRef q key dir h;
          pageCount = totalPages (h1 ! fd);
          (pd, h2) = array_slice fd ((page - 1) * int pageSize) (page * int pageSize) h1
      in ((pd, pageCount), h2))"

subsection \<open>Example records\<close>

definition exampleShip :: "string \<Rightarrow> int option \<Rightarrow> nat \<Rightarrow> Ship" where
  "exampleShip n y m =
     \<lparr>ship_id = 1, ship_name = js n, ship_type = js ''Tug'', roles = [js ''Support Ship''],
      home_port = js ''Port of Los Angeles'', year_built = y, active = True,
      ship_image = None, missions = replicate m \<lparr>mission_name = js ''CRS''\<rparr>\<rparr>"

definition twelveShips :: "Ship list" where
  "twelveShips = map (\<lambda>n. exampleShip n (Some 2015) 1)
     [''Alpha'', ''Bravo'', ''Charlie'', ''Delta'', ''Echo'', ''Foxtrot'', ''Golf'',
      ''Hotel'', ''India'', ''Juliett'', ''Kilo'', ''Lima'']"

definition threeShips :: "Ship list" where
  "threeShips = [exampleShip ''Alpha'' None 3, exampleShip ''Beta'' None 0,
     exampleShip ''Orion'' None 1]"




definition tieShips :: "Ship list" where
  "tieShips = [exampleShip ''A'' None 0, exampleShip ''B'' (Some 0) 0, exampleShip ''C'' None 0]"

text \<open>Two states of the list screen with the mission count selected.\<close>

definition descendingState :: ListState where
  "descendingState = initialList\<lparr>ships := threeShips, loading := False,
     sortBy := Some Missions, reverseSort := True\<rparr>"

definition ascendingState :: ListState where
  "ascendingState = initialList\<lparr>ships := threeShips, loading := False,
     sortBy := Some Missions, reverseSort := False\<rparr>"

section \<open>Properties\<close>

subsection \<open>Properties of the string functions\<close>



lemma str_includes_empty: "str_includes hay []"
  by (cases hay) simp_all


text \<open>
  The case-insensitive substring, computed: some segment of the length of \<open>s\<close> that starts
  at a position of \<open>n\<close> equals \<open>s\<close> up to case.
\<close>

lemma caseInsensitiveSubstring_code [code]:
  "caseInsensitiveSubstring s n
     \<longleftrightarrow> (\<exists>i\<in>{0..length n - length s}. equalIgnoringCase (take (length s) (drop i n)) s)"
proof
  assume "caseInsensitiveSubstring s n"
  then obtain b seg a where n: "n = b @ seg @ a" and eq: "equalIgnoringCase seg s"
    by (auto simp: caseInsensitiveSubstring_def)
  from eq have len: "length seg = length s"
    by (simp add: equalIgnoringCase_def list_all2_lengthD)
  have "take (length s) (drop (length b) n) = seg"
    by (simp add: n len [symmetric])
  moreover have "length b \<le> length n - length s"
    by (simp add: n len [symmetric])
  ultimately show "\<exists>i\<in>{0..length n - length s}. equalIgnoringCase (take (length s) (drop i n)) s"
    using eq by auto
next
  assume "\<exists>i\<in>{0..length n - length s}. equalIgnoringCase (take (length s) (drop i n)) s"
  then obtain i where eq: "equalIgnoringCase (take (length s) (drop i n)) s"
    by blast
  have "n = take i n @ take (length s) (drop i n) @ drop (length s) (drop i n)"
    by (simp only: append_take_drop_id)
  with eq show "caseInsensitiveSubstring s n"
    unfolding caseInsensitiveSubstring_def by blast
qed


lemma toLowerCase_empty: "toLowerCase [] = []"
  by (simp add: toLowerCase_def)

lemma filterShips_empty_search: "filterShips [] coll = coll"
  by (simp add: filterShips_def matchesSearch_def toLowerCase_empty str_includes_empty)







subsection \<open>Claims about filtering\<close>



text \<open>
  A name that begins with a capital E with acute accent is found by the small letter,
  and the scenario of the specification: the search \<^verbatim>\<open>a\<close> against the names Alpha, Beta
  and Orion keeps Alpha and Beta; so does the search \<^verbatim>\<open>A\<close>.
\<close>

lemma filterShips_scenario:
  "map ship_name (filterShips (js ''a'') threeShips) = [js ''Alpha'', js ''Beta'']
   \<and> map ship_name (filterShips (js ''A'') threeShips) = [js ''Alpha'', js ''Beta'']
   \<and> map ship_name (filterShips (js ''LPH'') threeShips) = [js ''Alpha'']
   \<and> filterShips [] threeShips = threeShips"
  by code_simp



subsection \<open>Properties of the comparator\<close>

lemma strict_eq_iff: "strict_eq u v \<longleftrightarrow> u = v"
  by (cases u; cases v) simp_all

lemma compareFn_equal_keys:
  "sortValue field a = sortValue field b \<Longrightarrow> compareFn field dir a b = 0"
  by (simp add: compareFn_def strict_eq_iff)






text \<open>
  A year 0 and an absent year rank each before the other: the absent year is compared as
  the number 0 by \<^verbatim>\<open>>\<close>, but is not \<^verbatim>\<open>===\<close> to it. So the comparator is not consistent
  on a collection that has both.
\<close>

lemma compareFn_zero_and_missing:
  "compareFn Year_built False (a\<lparr>year_built := Some 0\<rparr>) (b\<lparr>year_built := None\<rparr>) = - 1
   \<and> compareFn Year_built False (b\<lparr>year_built := None\<rparr>) (a\<lparr>year_built := Some 0\<rparr>) = - 1"
  by (simp add: compareFn_def)

subsection \<open>The sort permutes its input\<close>

lemma binarySearch_bounds:
  "left \<le> right \<Longrightarrow>
     left \<le> binarySearch cmp pivot work left right
     \<and> binarySearch cmp pivot work left right \<le> right"
proof (induction cmp pivot work left right rule: binarySearch.induct)
  case (1 cmp pivot work left right)
  show ?case
  proof (cases "left < right")
    case False
    then have "binarySearch cmp pivot work left right = left"
      by (subst binarySearch.simps) simp
    with "1.prems" show ?thesis by simp
  next
    case True
    define mid where "mid = left + (right - left) div 2"
    have mid: "left \<le> mid" "mid < right"
      using True by (simp_all add: mid_def)
    show ?thesis
    proof (cases "cmp pivot (work ! mid) < 0")
      case lt: True
      have "left \<le> binarySearch cmp pivot work left mid
          \<and> binarySearch cmp pivot work left mid \<le> mid"
        using "1.IH"(1) [OF True mid_def lt] mid by simp
      with True lt mid show ?thesis
        by (simp add: binarySearch.simps [of cmp pivot work left right] mid_def [symmetric])
    next
      case ge: False
      have "mid + 1 \<le> binarySearch cmp pivot work (mid + 1) right
          \<and> binarySearch cmp pivot work (mid + 1) right \<le> right"
        using "1.IH"(2) [OF True mid_def ge] mid by simp
      with True ge mid show ?thesis
        by (simp add: binarySearch.simps [of cmp pivot work left right] mid_def [symmetric])
    qed
  qed
qed

lemma mset_insertPivot: "mset (insertPivot cmp pivot work) = add_mset pivot (mset work)"
proof -
  have "mset (take k work @ pivot # drop k work) = add_mset pivot (mset work)" for k
    by (metis append_take_drop_id mset.simps(2) mset_append union_mset_add_mset_right)
  then show ?thesis
    by (simp add: insertPivot_def Let_def)
qed

lemma mset_binaryInsertionSort:
  "mset (binaryInsertionSort cmp work rest) = mset work + mset rest"
  by (induction rest arbitrary: work) (simp_all add: mset_insertPivot)

lemma mset_take_drop: "mset (take n xs) + mset (drop n xs) = mset xs"
  by (metis append_take_drop_id mset_append)

lemma mset_countAndMakeRun:
  "countAndMakeRun cmp xs = (run, rest) \<Longrightarrow> mset run + mset rest = mset xs"
  by (auto simp: countAndMakeRun_def Let_def mset_take_drop split: list.splits if_splits)

lemma mset_array_sort: "mset (array_sort cmp xs) = mset xs"
  by (cases "countAndMakeRun cmp xs")
    (simp add: array_sort_def mset_binaryInsertionSort mset_countAndMakeRun)

lemma set_array_sort: "set (array_sort cmp xs) = set xs"
  by (metis mset_array_sort set_mset_mset)

lemma length_array_sort: "length (array_sort cmp xs) = length xs"
  by (metis mset_array_sort size_mset)

subsection \<open>The sort orders by every key the comparator respects\<close>

text \<open>
  A key \<open>g\<close> is respected on a set of elements when the comparator ranks an element of
  smaller key strictly before one of larger key, in both argument orders. Elements of
  equal key may compare in any way, also inconsistently.
\<close>

lemma key_of_order:
  fixes g :: "'a \<Rightarrow> 'k::linorder" and cmp :: "'a \<Rightarrow> 'a \<Rightarrow> int"
  assumes "\<And>a b. a \<in> S \<Longrightarrow> b \<in> S \<Longrightarrow> g a < g b \<Longrightarrow> cmp a b < 0 \<and> 0 \<le> cmp b a"
    and "x \<in> S" "y \<in> S"
  shows "cmp x y < 0 \<Longrightarrow> g x \<le> g y" and "0 \<le> cmp x y \<Longrightarrow> g y \<le> g x"
proof -
  show "g x \<le> g y" if "cmp x y < 0"
  proof (rule ccontr)
    assume "\<not> g x \<le> g y"
    then have "g y < g x" by simp
    with assms have "0 \<le> cmp x y" by blast
    with that show False by simp
  qed
  show "g y \<le> g x" if "0 \<le> cmp x y"
  proof (rule ccontr)
    assume "\<not> g y \<le> g x"
    then have "g x < g y" by simp
    with assms have "cmp x y < 0" by blast
    with that show False by simp
  qed
qed

lemma binarySearch_splits:
  fixes g :: "'a \<Rightarrow> 'k::linorder"
  assumes "\<And>y. y \<in> set work \<Longrightarrow> cmp pivot y < 0 \<Longrightarrow> g pivot \<le> g y"
    and "\<And>y. y \<in> set work \<Longrightarrow> 0 \<le> cmp pivot y \<Longrightarrow> g y \<le> g pivot"
    and "sorted (map g work)" "left \<le> right" "right \<le> length work"
    and "\<forall>i<left. g (work ! i) \<le> g pivot"
    and "\<forall>i. right \<le> i \<and> i < length work \<longrightarrow> g pivot \<le> g (work ! i)"
  shows "(\<forall>i<binarySearch cmp pivot work left right. g (work ! i) \<le> g pivot)
    \<and> (\<forall>i. binarySearch cmp pivot work left right \<le> i \<and> i < length work
          \<longrightarrow> g pivot \<le> g (work ! i))"
  using assms
proof (induction cmp pivot work left right rule: binarySearch.induct)
  case (1 cmp pivot work left right)
  show ?case
  proof (cases "left < right")
    case False
    then have "binarySearch cmp pivot work left right = left"
      by (subst binarySearch.simps) simp
    moreover from False "1.prems"(4) have "left = right" by simp
    ultimately show ?thesis
      using "1.prems"(6,7) by simp
  next
    case True
    define mid where "mid = left + (right - left) div 2"
    have mid: "left \<le> mid" "mid < right" "mid < length work"
      using True "1.prems"(5) by (simp_all add: mid_def)
    then have inset: "work ! mid \<in> set work" by simp
    have mono: "g (work ! i) \<le> g (work ! j)" if "i \<le> j" "j < length work" for i j
      using sorted_nth_mono [OF "1.prems"(3), of i j] that by simp
    show ?thesis
    proof (cases "cmp pivot (work ! mid) < 0")
      case lt: True
      have eq: "binarySearch cmp pivot work left right = binarySearch cmp pivot work left mid"
        using True lt by (subst binarySearch.simps) (simp add: mid_def Let_def)
      have "g pivot \<le> g (work ! mid)"
        using "1.prems"(1) [OF inset lt] .
      then have "\<forall>i. mid \<le> i \<and> i < length work \<longrightarrow> g pivot \<le> g (work ! i)"
        using mono by (meson order_trans)
      then show ?thesis
        unfolding eq
        using "1.IH"(1) [OF True mid_def lt "1.prems"(1,2,3) mid(1) _ "1.prems"(6)] mid
        by simp
    next
      case ge: False
      have eq: "binarySearch cmp pivot work left right
          = binarySearch cmp pivot work (mid + 1) right"
        using True ge by (subst binarySearch.simps) (simp add: mid_def Let_def)
      have "g (work ! mid) \<le> g pivot"
        using "1.prems"(2) [OF inset] ge by simp
      then have "\<forall>i<mid + 1. g (work ! i) \<le> g pivot"
        using mono mid(3) by (metis Suc_eq_plus1 less_Suc_eq_le order_trans)
      then show ?thesis
        unfolding eq
        using "1.IH"(2) [OF True mid_def ge "1.prems"(1,2,3) _ "1.prems"(5) _ "1.prems"(7)] mid
        by simp
    qed
  qed
qed

lemma sorted_insertPivot:
  fixes g :: "'a \<Rightarrow> 'k::linorder"
  assumes "\<And>a b. a \<in> S \<Longrightarrow> b \<in> S \<Longrightarrow> g a < g b \<Longrightarrow> cmp a b < 0 \<and> 0 \<le> cmp b a"
    and "pivot \<in> S" "set work \<subseteq> S" "sorted (map g work)"
  shows "sorted (map g (insertPivot cmp pivot work))"
proof -
  define k where "k = binarySearch cmp pivot work 0 (length work)"
  have k: "k \<le> length work"
    using binarySearch_bounds [of 0 "length work" cmp pivot work] by (simp add: k_def)
  have split: "(\<forall>i<k. g (work ! i) \<le> g pivot)
      \<and> (\<forall>i. k \<le> i \<and> i < length work \<longrightarrow> g pivot \<le> g (work ! i))"
    unfolding k_def
  proof (rule binarySearch_splits)
    show "g pivot \<le> g y" if "y \<in> set work" "cmp pivot y < 0" for y
      using key_of_order(1) [of S g cmp pivot y] assms that by blast
    show "g y \<le> g pivot" if "y \<in> set work" "0 \<le> cmp pivot y" for y
      using key_of_order(2) [of S g cmp pivot y] assms that by blast
  qed (use assms in auto)
  have below: "\<forall>x\<in>set (take k work). g x \<le> g pivot"
    using split k by (auto simp: in_set_conv_nth)
  have above: "\<forall>x\<in>set (drop k work). g pivot \<le> g x"
    using split k by (auto simp: in_set_conv_nth)
  have "sorted (map g (take k work @ drop k work))"
    using assms(4) by simp
  then have "sorted (map g (take k work))" "sorted (map g (drop k work))"
    "\<forall>x\<in>set (take k work). \<forall>y\<in>set (drop k work). g x \<le> g y"
    unfolding map_append sorted_append by auto
  with below above have "sorted (map g (take k work @ pivot # drop k work))"
    unfolding map_append sorted_append by auto
  then show ?thesis
    by (simp add: insertPivot_def k_def Let_def)
qed

lemma set_insertPivot: "set (insertPivot cmp pivot work) = insert pivot (set work)"
  by (metis mset_insertPivot set_mset_add_mset_insert set_mset_mset)

lemma sorted_binaryInsertionSort:
  fixes g :: "'a \<Rightarrow> 'k::linorder"
  assumes "\<And>a b. a \<in> S \<Longrightarrow> b \<in> S \<Longrightarrow> g a < g b \<Longrightarrow> cmp a b < 0 \<and> 0 \<le> cmp b a"
    and "set rest \<subseteq> S" "set work \<subseteq> S" "sorted (map g work)"
  shows "sorted (map g (binaryInsertionSort cmp work rest))"
  using assms(2-)
proof (induction rest arbitrary: work)
  case Nil
  then show ?case by simp
next
  case (Cons pivot rest)
  have "sorted (map g (insertPivot cmp pivot work))"
    using Cons.prems by (intro sorted_insertPivot [of S g cmp]) (simp_all add: assms(1))
  moreover have "set (insertPivot cmp pivot work) \<subseteq> S"
    using Cons.prems by (simp add: set_insertPivot)
  ultimately show ?case
    using Cons by simp
qed

lemma sorted_ascending_run:
  fixes g :: "'a \<Rightarrow> 'k::linorder"
  assumes "\<And>a b. a \<in> S \<Longrightarrow> b \<in> S \<Longrightarrow> g a < g b \<Longrightarrow> cmp a b < 0 \<and> 0 \<le> cmp b a"
    and "previous \<in> S" "set rest \<subseteq> S"
  shows "sorted (map g (previous # take (runTail cmp False previous rest) rest))"
  using assms(2-)
proof (induction rest arbitrary: previous)
  case Nil
  show ?case by simp
next
  case (Cons current rest)
  show ?case
  proof (cases "cmp current previous < 0")
    case True
    then show ?thesis by simp
  next
    case False
    then have "g previous \<le> g current"
      using key_of_order(2) [of S g cmp current previous] assms(1) Cons.prems by simp
    moreover have "sorted (map g (current # take (runTail cmp False current rest) rest))"
      using Cons by simp
    ultimately show ?thesis
      using False by (auto intro: order_trans)
  qed
qed

lemma sorted_descending_run:
  fixes g :: "'a \<Rightarrow> 'k::linorder"
  assumes "\<And>a b. a \<in> S \<Longrightarrow> b \<in> S \<Longrightarrow> g a < g b \<Longrightarrow> cmp a b < 0 \<and> 0 \<le> cmp b a"
    and "previous \<in> S" "set rest \<subseteq> S"
  shows "sorted (rev (map g (previous # take (runTail cmp True previous rest) rest)))"
  using assms(2-)
proof (induction rest arbitrary: previous)
  case Nil
  show ?case by simp
next
  case (Cons current rest)
  show ?case
  proof (cases "0 \<le> cmp current previous")
    case True
    then show ?thesis by simp
  next
    case False
    then have le: "g current \<le> g previous"
      using key_of_order(1) [of S g cmp current previous] assms(1) Cons.prems by simp
    have "sorted (rev (map g (current # take (runTail cmp True current rest) rest)))"
      using Cons by simp
    then have "sorted (rev (map g (current # take (runTail cmp True current rest) rest))
        @ [g previous])"
      using le by (auto simp: sorted_append intro: order_trans)
    then show ?thesis
      using False by simp
  qed
qed

lemma sorted_array_sort:
  fixes g :: "'a \<Rightarrow> 'k::linorder"
  assumes "\<And>a b. a \<in> set xs \<Longrightarrow> b \<in> set xs \<Longrightarrow> g a < g b \<Longrightarrow> cmp a b < 0 \<and> 0 \<le> cmp b a"
  shows "sorted (map g (array_sort cmp xs))"
proof (cases xs)
  case Nil
  then show ?thesis by (simp add: array_sort_def)
next
  case (Cons a ys)
  show ?thesis
  proof (cases ys)
    case Nil
    with Cons show ?thesis by (simp add: array_sort_def)
  next
    case (Cons b rest)
    with \<open>xs = a # ys\<close> have xs: "xs = a # b # rest" by simp
    define descending where "descending = (cmp b a < 0)"
    define n where "n = runTail cmp descending b rest"
    have run: "countAndMakeRun cmp xs
        = (if descending then rev (a # b # take n rest) else a # b # take n rest, drop n rest)"
      by (simp add: countAndMakeRun_def xs descending_def n_def Let_def)
    have inS: "a \<in> set xs" "b \<in> set xs" "set rest \<subseteq> set xs"
      by (auto simp: xs)
    have "sorted (map g (if descending then rev (a # b # take n rest) else a # b # take n rest))"
    proof (cases descending)
      case True
      then have "g b \<le> g a"
        using key_of_order(1) [of "set xs" g cmp b a] assms inS by (simp add: descending_def)
      moreover have "sorted (rev (map g (b # take n rest)))"
        unfolding n_def using True sorted_descending_run [of "set xs" g cmp b rest] assms inS
        by simp
      ultimately have "sorted (rev (map g (b # take n rest)) @ [g a])"
        by (auto simp: sorted_append intro: order_trans)
      with True show ?thesis by (simp add: rev_map)
    next
      case False
      then have "g a \<le> g b"
        using key_of_order(2) [of "set xs" g cmp b a] assms inS by (simp add: descending_def)
      moreover have "sorted (map g (b # take n rest))"
        unfolding n_def using False sorted_ascending_run [of "set xs" g cmp b rest] assms inS
        by simp
      ultimately show ?thesis
        using False by (auto intro: order_trans)
    qed
    moreover have "set (if descending then rev (a # b # take n rest) else a # b # take n rest)
        \<subseteq> set xs"
      using inS by (auto dest: in_set_takeD)
    moreover have "set (drop n rest) \<subseteq> set xs"
      using inS by (auto dest: in_set_dropD)
    ultimately have "sorted (map g (binaryInsertionSort cmp
        (if descending then rev (a # b # take n rest) else a # b # take n rest) (drop n rest)))"
      using assms by (intro sorted_binaryInsertionSort [of "set xs" g cmp]) simp_all
    then show ?thesis
      by (simp add: array_sort_def xs [symmetric] run) (simp add: xs)
  qed
qed

subsection \<open>Properties of slicing and of the page count\<close>

lemma slice_nonneg:
  assumes "0 \<le> s" "s \<le> e"
  shows "slice xs s e = take (nat (e - s)) (drop (nat s) xs)"
proof (cases "s \<le> int (length xs)")
  case True
  have "take (nat (min e (int (length xs)) - s)) (drop (nat s) xs)
      = take (nat (e - s)) (drop (nat s) xs)"
  proof (cases "e \<le> int (length xs)")
    case True
    then show ?thesis by (simp add: min_def)
  next
    case False
    then have "length (drop (nat s) xs) \<le> nat (int (length xs) - s)"
      "length (drop (nat s) xs) \<le> nat (e - s)"
      using assms by auto
    then show ?thesis using False by (simp add: min_def)
  qed
  then show ?thesis
    using assms True by (simp add: slice_def Let_def min_def)
next
  case False
  then have "drop (nat s) xs = []" "drop (length xs) xs = []"
    by auto
  then show ?thesis
    using assms False by (simp add: slice_def Let_def min_def)
qed

lemma paginatedData_take_drop:
  assumes "1 \<le> p"
  shows "paginatedData rows p = take pageSize (drop (nat (p - 1) * pageSize) rows)"
proof -
  have "paginatedData rows p
      = take (nat (p * int pageSize - (p - 1) * int pageSize))
          (drop (nat ((p - 1) * int pageSize)) rows)"
    unfolding paginatedData_def using assms
    by (intro slice_nonneg) (auto simp: mult_right_mono)
  moreover have "p * int pageSize - (p - 1) * int pageSize = int pageSize"
    by (simp add: algebra_simps)
  moreover have "nat ((p - 1) * int pageSize) = nat (p - 1) * pageSize"
    using assms by (simp add: nat_mult_distrib)
  ultimately show ?thesis by simp
qed

lemma totalPages_div: "totalPages rows = int ((length rows + 9) div 10)"
proof -
  define q where "q = (length rows + 9) div 10"
  have "length rows \<le> 10 * q" "10 * q < length rows + 10"
    unfolding q_def by linarith+
  then have "real (length rows) \<le> real (10 * q)" "real (10 * q) < real (length rows + 10)"
    by (simp_all only: of_nat_le_iff of_nat_less_iff)
  then have "\<lceil>real (length rows) / 10\<rceil> = int q"
    by (intro ceiling_unique) simp_all
  then have "\<lceil>real (length rows) / 10\<rceil> = int ((length rows + 9) div 10)"
    by (simp add: q_def)
  then show ?thesis by (simp add: totalPages_def pageSize_def)
qed

lemma concat_chunks:
  "concat (map (\<lambda>k. take n (drop (k * n) xs)) [0..<m]) = take (m * n) xs"
proof (induction m)
  case 0
  show ?case by simp
next
  case (Suc m)
  have "Suc m * n = m * n + n"
    by simp
  then have "take (Suc m * n) xs = take (m * n) xs @ take n (drop (m * n) xs)"
    by (simp only: take_add)
  with Suc show ?case by simp
qed

lemma upto_from_one: "[1..int m] = map (\<lambda>k. int k + 1) [0..<m]"
proof (induction m)
  case 0
  show ?case by simp
next
  case (Suc m)
  have "[1..int (Suc m)] = [1..int m] @ [int m + 1]"
    by (simp add: upto_rec2 add.commute)
  with Suc show ?case by simp
qed

lemma concat_pages: "concat (map (paginatedData rows) [1..totalPages rows]) = rows"
proof -
  define m where "m = (length rows + 9) div 10"
  have "map (paginatedData rows) [1..int m]
      = map (\<lambda>k. take pageSize (drop (k * pageSize) rows)) [0..<m]"
    by (simp add: upto_from_one paginatedData_take_drop)
  then have "concat (map (paginatedData rows) [1..int m]) = take (m * pageSize) rows"
    by (simp add: concat_chunks)
  moreover have "length rows \<le> m * pageSize"
    unfolding m_def pageSize_def by linarith
  ultimately show ?thesis
    by (simp add: totalPages_div m_def)
qed

subsection \<open>Claims about pagination\<close>

lemma paginatedData_nth:
  assumes "1 \<le> p" "i < length (paginatedData rows p)"
  shows "paginatedData rows p ! i = rows ! (nat (p - 1) * pageSize + i)"
proof -
  from assms have "i < length rows - nat (p - 1) * pageSize"
    by (simp add: paginatedData_take_drop)
  then have "nat (p - 1) * pageSize \<le> length rows"
    by simp
  with assms show ?thesis
    by (simp add: paginatedData_take_drop)
qed

lemma paginatedData_length:
  assumes "1 \<le> p"
  shows "length (paginatedData rows p) = min pageSize (length rows - nat (p - 1) * pageSize)"
  using assms by (simp add: paginatedData_take_drop)

lemma totalPages_bounds:
  "int (length rows) \<le> totalPages rows * int pageSize
   \<and> totalPages rows * int pageSize < int (length rows) + int pageSize"
  unfolding totalPages_div pageSize_def by linarith

text \<open>
  C2. With the fixed page size 10 and \<open>rows\<close> the filtered, sorted collection of \<open>N\<close>
  rows: the page count is the ceiling of \<open>N / 10\<close>, that is the integer \<open>t\<close> with
  \<open>N \<le> 10 t < N + 10\<close>; page \<open>p \<ge> 1\<close> holds the rows of \<open>rows\<close> at the indices from
  \<open>(p - 1) * 10\<close> up to, not including, \<open>p * 10\<close>, as far as \<open>rows\<close> reaches, in that
  order; and the pages 1 to \<open>t\<close>, one after the other, are \<open>rows\<close> itself, so every row
  is on exactly one page.
\<close>

theorem pagination_partitions:
  assumes "rows = filteredData coll q key dir"
  shows "pageSize = 10
    \<and> totalPages rows = \<lceil>real (length rows) / real pageSize\<rceil>
    \<and> int (length rows) \<le> totalPages rows * int pageSize
    \<and> totalPages rows * int pageSize < int (length rows) + int pageSize
    \<and> (\<forall>p\<ge>1. length (paginatedData rows p)
            = min pageSize (length rows - nat (p - 1) * pageSize)
          \<and> (\<forall>i<length (paginatedData rows p).
                paginatedData rows p ! i = rows ! (nat (p - 1) * pageSize + i)))
    \<and> concat (map (paginatedData rows) [1..totalPages rows]) = rows"
proof -
  have "pageSize = 10"
    by (simp add: pageSize_def)
  moreover have "totalPages rows = \<lceil>real (length rows) / real pageSize\<rceil>"
    by (simp add: totalPages_def)
  moreover note totalPages_bounds [of rows]
  moreover have "\<forall>p\<ge>1. length (paginatedData rows p)
            = min pageSize (length rows - nat (p - 1) * pageSize)
          \<and> (\<forall>i<length (paginatedData rows p).
                paginatedData rows p ! i = rows ! (nat (p - 1) * pageSize + i))"
    using paginatedData_nth paginatedData_length by blast
  moreover note concat_pages [of rows]
  ultimately show ?thesis by blast
qed

text \<open>
  The scenario of the specification: twelve records named Alpha to Lima and an empty
  search give two pages, the first with ten records and the second with the last two.
\<close>

lemma twelve_unfiltered: "filteredData twelveShips [] None False = twelveShips"
  by (simp add: filteredData_def filterShips_empty_search)

lemma twelve_pages:
  "paginatedData twelveShips 1 = take 10 twelveShips"
  "paginatedData twelveShips 2 = drop 10 twelveShips"
  "length twelveShips = 12"
  by (simp_all add: paginatedData_def slice_def pageSize_def twelveShips_def)

theorem pagination_partitions_witness:
  "totalPages twelveShips = 2
   \<and> paginatedData twelveShips 2 ! 1 = twelveShips ! 11
   \<and> length (paginatedData twelveShips 2) = 2
   \<and> map ship_name (paginatedData twelveShips 2) = [js ''Kilo'', js ''Lima'']
   \<and> paginatedData twelveShips 1 @ paginatedData twelveShips 2 = twelveShips"
proof -
  note inst = pagination_partitions [OF twelve_unfiltered [symmetric]]
  have two: "totalPages twelveShips = 2"
    using inst by (simp add: twelve_pages pageSize_def)
  have "(1::int) \<le> 2" "1 < length (paginatedData twelveShips 2)"
    by (simp_all add: twelve_pages)
  with inst have "paginatedData twelveShips 2 ! 1 = twelveShips ! (nat (2 - 1) * pageSize + 1)"
    by blast
  then have nth: "paginatedData twelveShips 2 ! 1 = twelveShips ! 11"
    by (simp add: pageSize_def)
  have "[1..2::int] = [1, 2]"
    by (simp add: upto_rec1)
  with inst two have "paginatedData twelveShips 1 @ paginatedData twelveShips 2 = twelveShips"
    by simp
  moreover have "map ship_name (paginatedData twelveShips 2) = [js ''Kilo'', js ''Lima'']"
    by (simp add: twelve_pages) (simp add: twelveShips_def exampleShip_def)
  ultimately show ?thesis
    using two nth by (simp add: twelve_pages)
qed

subsection \<open>Claims about sorting\<close>

lemma filteredData_Some:
  "filteredData coll q (Some field) dir = array_sort (compareFn field dir) (filterShips q coll)"
  by (simp add: filteredData_def)








text \<open>With the mission count as key, ties keep their order in both directions.\<close>

lemma sort_ties_example:
  "map ship_name (filteredData
      [exampleShip ''A'' None 1, exampleShip ''B'' None 0, exampleShip ''C'' None 1,
       exampleShip ''D'' None 0] [] (Some Missions) False)
     = [js ''B'', js ''D'', js ''A'', js ''C'']
   \<and> map ship_name (filteredData
      [exampleShip ''A'' None 1, exampleShip ''B'' None 0, exampleShip ''C'' None 1,
       exampleShip ''D'' None 0] [] (Some Missions) True)
     = [js ''A'', js ''C'', js ''B'', js ''D'']"
  by (simp add: filteredData_Some filterShips_empty_search array_sort_def countAndMakeRun_def
      insertPivot_def binarySearch.simps compareFn_def exampleShip_def)

text \<open>
  C4. The claim: the sort is stable, for every collection, key and direction. The code
  does not keep ties in order under the year key when a year 0 stands between two absent
  years: the comparator ranks the 0 before the absent year and the absent year before the
  0, the engine takes the three records for a descending run and reverses it, and the two
  records with the absent year, whose keys are equal, change places.
\<close>

theorem year_ties_swapped:
  "map year_built tieShips = [None, Some 0, None]
   \<and> sortValue Year_built (tieShips ! 0) = sortValue Year_built (tieShips ! 2)
   \<and> compareFn Year_built False (tieShips ! 1) (tieShips ! 0) = - 1
   \<and> compareFn Year_built False (tieShips ! 0) (tieShips ! 1) = - 1
   \<and> compareFn Year_built False (tieShips ! 2) (tieShips ! 1) = - 1
   \<and> map ship_name tieShips = [js ''A'', js ''B'', js ''C'']
   \<and> map ship_name (filteredData tieShips [] (Some Year_built) False)
       = [js ''C'', js ''B'', js ''A'']"
  by (simp add: filteredData_Some filterShips_empty_search array_sort_def countAndMakeRun_def
      compareFn_def tieShips_def exampleShip_def)

subsection \<open>Claims about records without a year\<close>

lemma compareFn_missing_year:
  assumes "year_built a = None" "yearPositive b"
  shows "compareFn Year_built False a b = - 1" "compareFn Year_built False b a = 1"
  using assms by (auto simp: compareFn_def Let_def yearPositive_def split: option.splits)



text \<open>
  Unless a year 0 and an absent year both occur, the absent year sorts as the number 0.
\<close>

lemma compareFn_Year_as_number:
  assumes "year_built a \<noteq> Some 0 \<or> year_built b \<noteq> None"
    and "year_built b \<noteq> Some 0 \<or> year_built a \<noteq> None"
    and "yearOrZero a < yearOrZero b"
  shows "compareFn Year_built False a b < 0 \<and> 0 \<le> compareFn Year_built False b a"
  using assms
  by (cases "year_built a"; cases "year_built b")
    (auto simp: compareFn_def Let_def yearOrZero_def split: if_splits)

lemma sorted_by_year:
  assumes "(\<forall>r\<in>set coll. year_built r \<noteq> Some 0) \<or> (\<forall>r\<in>set coll. year_built r \<noteq> None)"
  shows "sorted (map yearOrZero (filteredData coll q (Some Year_built) False))"
  unfolding filteredData_Some
proof (rule sorted_array_sort)
  fix a b
  assume "a \<in> set (filterShips q coll)" "b \<in> set (filterShips q coll)"
    and lt: "yearOrZero a < yearOrZero b"
  then have "a \<in> set coll" "b \<in> set coll"
    by (simp_all add: filterShips_def)
  with assms lt show "compareFn Year_built False a b < 0 \<and> 0 \<le> compareFn Year_built False b a"
    by (intro compareFn_Year_as_number) auto
qed




subsection \<open>Claims about the sort state and the current page\<close>

text \<open>
  The last part of C5 as it is worded fails when the direction is descending: with the
  mission count selected and descending, two more clicks on the mission count leave the
  rows descending, which is not their ascending order.
\<close>

theorem toggle_twice_not_ascending:
  "sortBy descendingState = Some Missions
   \<and> displayed (setSorting Missions (setSorting Missions descendingState))
       \<noteq> filteredData (ships descendingState) (search descendingState) (Some Missions) False
   \<and> map (\<lambda>r. length (missions r))
        (displayed (setSorting Missions (setSorting Missions descendingState))) = [3, 1, 0]
   \<and> map (\<lambda>r. length (missions r))
        (filteredData (ships descendingState) (search descendingState) (Some Missions) False)
        = [0, 1, 3]"
  by (simp add: descendingState_def initialList_def setSorting_def displayed_def
      filteredData_Some filterShips_empty_search array_sort_def countAndMakeRun_def
      insertPivot_def binarySearch.simps compareFn_def threeShips_def
      exampleShip_def)

text \<open>
  C5 (amended). For every state of the list screen: selecting the key that is already
  selected toggles the direction and changes nothing else; selecting another key (or a
  first key) selects it with the direction reset to ascending; and selecting the selected
  key twice restores the state, and so the displayed rows, from before the two clicks,
  which is the ascending order for that key when the direction was ascending.
\<close>

theorem setSorting_toggles:
  "(sortBy st = Some field \<longrightarrow>
      setSorting field st = st\<lparr>reverseSort := \<not> reverseSort st\<rparr>
      \<and> setSorting field (setSorting field st) = st
      \<and> displayed (setSorting field (setSorting field st)) = displayed st
      \<and> (\<not> reverseSort st \<longrightarrow>
           displayed (setSorting field (setSorting field st))
             = filteredData (ships st) (search st) (Some field) False))
   \<and> (sortBy st \<noteq> Some field \<longrightarrow>
      setSorting field st = st\<lparr>reverseSort := False, sortBy := Some field\<rparr>)"
  by (auto simp: setSorting_def displayed_def)

theorem setSorting_toggles_witness:
  "reverseSort (setSorting Missions ascendingState) = True
   \<and> setSorting Missions (setSorting Missions ascendingState) = ascendingState
   \<and> map (\<lambda>r. length (missions r))
        (displayed (setSorting Missions (setSorting Missions ascendingState))) = [0, 1, 3]
   \<and> sortBy (setSorting Ship_name ascendingState) = Some Ship_name
   \<and> reverseSort (setSorting Ship_name (setSorting Missions ascendingState)) = False"
proof -
  have same: "sortBy ascendingState = Some Missions" and asc: "\<not> reverseSort ascendingState"
    and other: "sortBy ascendingState \<noteq> Some Ship_name"
    "sortBy (setSorting Missions ascendingState) \<noteq> Some Ship_name"
    by (simp_all add: ascendingState_def initialList_def setSorting_def)
  from setSorting_toggles [of ascendingState Missions] same asc
  have t: "setSorting Missions ascendingState
      = ascendingState\<lparr>reverseSort := \<not> reverseSort ascendingState\<rparr>"
    "setSorting Missions (setSorting Missions ascendingState) = ascendingState"
    "displayed (setSorting Missions (setSorting Missions ascendingState))
      = filteredData (ships ascendingState) (search ascendingState) (Some Missions) False"
    by blast+
  from setSorting_toggles [of ascendingState Ship_name] other(1)
  have o1: "setSorting Ship_name ascendingState
      = ascendingState\<lparr>reverseSort := False, sortBy := Some Ship_name\<rparr>"
    by blast
  from setSorting_toggles [of "setSorting Missions ascendingState" Ship_name] other(2)
  have o2: "setSorting Ship_name (setSorting Missions ascendingState)
      = (setSorting Missions ascendingState)\<lparr>reverseSort := False, sortBy := Some Ship_name\<rparr>"
    by blast
  have "map (\<lambda>r. length (missions r))
      (filteredData (ships ascendingState) (search ascendingState) (Some Missions) False)
      = [0, 1, 3]"
    by (simp add: ascendingState_def initialList_def filteredData_Some filterShips_empty_search
        array_sort_def countAndMakeRun_def insertPivot_def binarySearch.simps compareFn_def
        threeShips_def exampleShip_def)
  with t asc show ?thesis
    unfolding o1 o2 by simp
qed

text \<open>
  C6. For every state of the list screen: a change of the search string sets the current
  page to 1; a change of the sort key or direction leaves the current page, the search
  string and the collection as they are, and the displayed rows are a permutation of the
  rows displayed before, so only their order changes.
\<close>

theorem search_resets_page_sort_keeps_it:
  "currentPage (onSearchChange v st) = 1
   \<and> search (onSearchChange v st) = v
   \<and> currentPage (setSorting field st) = currentPage st
   \<and> search (setSorting field st) = search st
   \<and> ships (setSorting field st) = ships st
   \<and> mset (displayed (setSorting field st)) = mset (displayed st)
   \<and> length (displayed (setSorting field st)) = length (displayed st)
   \<and> totalPages (displayed (setSorting field st)) = totalPages (displayed st)"
proof -
  have m: "mset (displayed (setSorting field st)) = mset (displayed st)"
    by (cases "sortBy st")
      (simp_all add: displayed_def setSorting_def filteredData_def mset_array_sort)
  then have "length (displayed (setSorting field st)) = length (displayed st)"
    by (metis size_mset)
  with m show ?thesis
    by (simp add: onSearchChange_def setSorting_def totalPages_def)
qed

subsection \<open>Claims about the source collection\<close>

lemma filteredData_store_result:
  assumes "shipsRef < length h"
  shows "fst (filteredData_store shipsRef q key dir h) = length h"
    and "length (snd (filteredData_store shipsRef q key dir h)) = Suc (length h)"
    and "snd (filteredData_store shipsRef q key dir h) ! length h
           = filteredData (h ! shipsRef) q key dir"
    and "\<forall>r<length h. snd (filteredData_store shipsRef q key dir h) ! r = h ! r"
  using assms
  by (auto simp: filteredData_store_def array_filter_def array_sort_in_place_def
      filteredData_def filterShips_def nth_append split: option.splits)

text \<open>
  C7. For every store, every valid reference to the fetched collection, and every search
  string, sort key, direction and page: the derivation (filter, then sort, then slice)
  leaves the fetched collection, and every other array that existed before, as it was;
  the in-place sort overwrites only the array the filter has just allocated. The rows of
  the page and the page count are the values of the pure functions \<open>paginatedData\<close>,
  \<open>filteredData\<close> and \<open>totalPages\<close> at the content of the collection, the search string,
  the key, the direction and the page, and depend on nothing else in the store.
\<close>

theorem derivation_leaves_source_unchanged:
  assumes "shipsRef < length h"
    and "derivedView shipsRef q key dir page h = ((rowsRef, pageCount), h')"
  shows "h' ! shipsRef = h ! shipsRef
    \<and> (\<forall>r<length h. h' ! r = h ! r)
    \<and> length h \<le> rowsRef \<and> rowsRef < length h'
    \<and> h' ! rowsRef = paginatedData (filteredData (h ! shipsRef) q key dir) page
    \<and> pageCount = totalPages (filteredData (h ! shipsRef) q key dir)"
proof -
  define fd h1 where "fd = fst (filteredData_store shipsRef q key dir h)"
    and "h1 = snd (filteredData_store shipsRef q key dir h)"
  have fd: "fd = length h" and len: "length h1 = Suc (length h)"
    and content: "h1 ! length h = filteredData (h ! shipsRef) q key dir"
    and old: "\<forall>r<length h. h1 ! r = h ! r"
    unfolding fd_def h1_def using filteredData_store_result [OF assms(1)] by blast+
  have "derivedView shipsRef q key dir page h
      = ((length h1, totalPages (h1 ! fd)),
         h1 @ [slice (h1 ! fd) ((page - 1) * int pageSize) (page * int pageSize)])"
    by (simp add: derivedView_def array_slice_def fd_def h1_def split: prod.splits)
  with assms(2) have r: "rowsRef = length h1" "pageCount = totalPages (h1 ! fd)"
    "h' = h1 @ [slice (h1 ! fd) ((page - 1) * int pageSize) (page * int pageSize)]"
    by simp_all
  have "\<forall>r<length h. h' ! r = h ! r"
    using old len by (simp add: r nth_append)
  moreover from this assms(1) have "h' ! shipsRef = h ! shipsRef"
    by simp
  moreover have "h' ! rowsRef = paginatedData (filteredData (h ! shipsRef) q key dir) page"
    by (simp add: r fd content paginatedData_def)
  moreover have "pageCount = totalPages (filteredData (h ! shipsRef) q key dir)"
    by (simp add: r fd content)
  moreover have "length h \<le> rowsRef" "rowsRef < length h'"
    by (simp_all add: r len)
  ultimately show ?thesis by blast
qed

lemma derivedView_example:
  "derivedView 0 [] (Some Missions) False 1 [threeShips]
     = ((2, 1), [threeShips, [threeShips ! 1, threeShips ! 2, threeShips ! 0],
                 [threeShips ! 1, threeShips ! 2, threeShips ! 0]])"
  by (simp add: derivedView_def filteredData_store_def array_filter_def array_sort_in_place_def
      array_slice_def matchesSearch_def toLowerCase_def str_includes_empty array_sort_def
      countAndMakeRun_def insertPivot_def binarySearch.simps compareFn_def
      totalPages_def pageSize_def slice_def threeShips_def exampleShip_def)

theorem derivation_leaves_source_unchanged_witness:
  "[threeShips, [threeShips ! 1, threeShips ! 2, threeShips ! 0],
      [threeShips ! 1, threeShips ! 2, threeShips ! 0]] ! 0 = [threeShips] ! 0
   \<and> [threeShips ! 1, threeShips ! 2, threeShips ! 0]
       = paginatedData (filteredData threeShips [] (Some Missions) False) 1
   \<and> totalPages (filteredData threeShips [] (Some Missions) False) = 1"
proof -
  have "(0::nat) < length [threeShips]"
    by simp
  from derivation_leaves_source_unchanged [OF this derivedView_example]
  show ?thesis by simp
qed

subsection \<open>Claims about fetching\<close>

text \<open>
  A failed fetch, on either screen, is logged and not thrown again; the loading flag is
  cleared; the detail screen then shows the notice \<^verbatim>\<open>Ship not found\<close> and the list
  screen the empty table. A body that is \<^verbatim>\<open>null\<close> gives the notice as well.
\<close>

lemma fetchShip_failure:
  assumes "r = NetworkError \<or> r = ParseError"
  shows "ShipDetails (fetchShip r initialDetail) = ShipNotFound"
    and "shipLoading (fetchShip r initialDetail) = False"
    and "shipConsole (fetchShip r initialDetail) = [''Error fetching ship:'']"
  using assms by (elim disjE; simp add: fetchShip_def initialDetail_def ShipDetails_def)+

lemma fetchShips_failure:
  assumes "r = NetworkError \<or> r = ParseError"
  shows "ShipTable (fetchShips r initialList) = NoShipsFound"
    and "loading (fetchShips r initialList) = False"
    and "console (fetchShips r initialList) = [''Failed to fetch ships'']"
proof -
  have st: "fetchShips r initialList
      = initialList\<lparr>loading := False, console := [''Failed to fetch ships'']\<rparr>"
    using assms by (elim disjE) (simp_all add: fetchShips_def fetchShips_start_def initialList_def)
  have "visibleRows (fetchShips r initialList) = []"
    unfolding st
    by (simp add: initialList_def visibleRows_def displayed_def filteredData_def
        filterShips_def paginatedData_def slice_def)
  then show "ShipTable (fetchShips r initialList) = NoShipsFound"
    by (simp add: ShipTable_def st)
  show "loading (fetchShips r initialList) = False"
    "console (fetchShips r initialList) = [''Failed to fetch ships'']"
    by (simp_all add: st)
qed

lemma fetchShip_null_body:
  "ShipDetails (fetchShip (Parsed JNull) initialDetail) = ShipNotFound"
  by (simp add: fetchShip_def initialDetail_def ShipDetails_def)

lemma fetchShip_loading_cleared: "shipLoading (fetchShip r st) = False"
  by (cases r) (simp_all add: fetchShip_def)

text \<open>
  C8. The claim: a detail fetch for an identifier that does not exist, where the lookup
  returns no usable record, renders the notice \<^verbatim>\<open>Ship not found\<close> and no failure goes
  unhandled. The code does not do this when the server answers the unknown identifier
  with an error document: \<^verbatim>\<open>fetch\<close> resolves, the document parses, \<^verbatim>\<open>setShip\<close> stores
  it, it is truthy, and the render throws a TypeError at \<^verbatim>\<open>ship.roles.map\<close>.
\<close>

theorem unknown_ship_breaks_render:
  "ShipDetails (fetchShip (Parsed (JObj [(''error'', JStr ''Not Found'')])) initialDetail)
     = RenderTypeError"
  by (simp add: fetchShip_def initialDetail_def ShipDetails_def)

text \<open>The same happens for every truthy body without both arrays.\<close>

lemma ShipDetails_needs_arrays:
  assumes "\<not> shipLoading st" "truthy (ship st)"
    "\<not> isArray (getProp (ship st) ''roles'') \<or> \<not> isArray (getProp (ship st) ''missions'')"
  shows "ShipDetails st = RenderTypeError"
  using assms by (auto simp: ShipDetails_def)

text \<open>
  C9 as it is worded fails: on a screen that was deactivated while its fetch was
  outstanding, the code that runs when the fetch settles still calls the setter with the
  result, on the list screen and on the detail screen.
\<close>

theorem deactivated_screen_still_written:
  "mounted (step fetchShips_settled (activate fetchShips_start) Deactivate) = False
   \<and> outstanding (step fetchShips_settled (activate fetchShips_start) Deactivate) = True
   \<and> calls (step fetchShips_settled
         (step fetchShips_settled (activate fetchShips_start) Deactivate)
         (Settle (Parsed threeShips)))
       = [SetLoading True, SetData threeShips, SetLoading False]
   \<and> calls (step fetchShip_settled
         (step fetchShip_settled (activate []) Deactivate)
         (Settle (Parsed (JObj []))))
       = [SetData (JObj []), SetLoading False]"
  by (simp add: activate_def fetchShips_start_def)

text \<open>
  C9 (amended). For every screen whose fetch is outstanding when the screen deactivates:
  deactivation runs no code of the screen and does not cancel the fetch, and when the
  result resolves the screen's code makes the same calls as on an active screen, the
  setter with the parsed result and then the loading flag cleared. No flag of the
  screen's code suppresses the call.
\<close>

theorem settle_ignores_deactivation:
  "calls (step settled (step settled a Deactivate) (Settle r)) = calls (step settled a (Settle r))
   \<and> outstanding (step settled a Deactivate) = outstanding a
   \<and> (outstanding a \<longrightarrow>
        calls (step settled (step settled a Deactivate) (Settle r)) = calls a @ settled r)
   \<and> fetchShips_settled (Parsed data) = [SetData data, SetLoading False]
   \<and> fetchShip_settled (Parsed body) = [SetData body, SetLoading False]"
  by simp

theorem settle_ignores_deactivation_witness:
  "outstanding (activate fetchShips_start)
   \<and> calls (step fetchShips_settled
         (step fetchShips_settled (activate fetchShips_start) Deactivate)
         (Settle (Parsed threeShips)))
       = calls (activate fetchShips_start) @ [SetData threeShips, SetLoading False]"
proof -
  have out: "outstanding (activate fetchShips_start :: Ship list Activation)"
    by (simp add: activate_def)
  from settle_ignores_deactivation [of fetchShips_settled "activate fetchShips_start"
      "Parsed threeShips" threeShips JNull] out
  have "calls (step fetchShips_settled
         (step fetchShips_settled (activate fetchShips_start) Deactivate)
         (Settle (Parsed threeShips)))
       = calls (activate fetchShips_start) @ fetchShips_settled (Parsed threeShips)"
    by blast
  with out show ?thesis by simp
qed

end
